theory Spec2Isabelle
  imports Main
begin

section \<open>The Go library functions the tools package calls\<close>

text \<open>
  A Go string is a sequence of bytes, so it is a \<^typ>\<open>string\<close> here. The functions of
  this section are the ones of the packages \<^verbatim>\<open>strings\<close> and \<^verbatim>\<open>strconv\<close> that
  \<^verbatim>\<open>tools.go\<close> calls, with the behaviour of the Go standard library.
\<close>

definition nl :: string where
  "nl = [CHR 0x0A]"

definition HasPrefix :: "string \<Rightarrow> string \<Rightarrow> bool" where
  "HasPrefix s p = (take (length p) s = p)"

definition HasSuffix :: "string \<Rightarrow> string \<Rightarrow> bool" where
  "HasSuffix s p = (length p \<le> length s \<and> drop (length s - length p) s = p)"

definition TrimPrefix :: "string \<Rightarrow> string \<Rightarrow> string" where
  "TrimPrefix s p = (if HasPrefix s p then drop (length p) s else s)"

text \<open>\<^verbatim>\<open>strings.Split(s, sep)\<close> for a separator of one byte: never an empty result.\<close>

fun Split :: "string \<Rightarrow> char \<Rightarrow> string list" where
  "Split [] sep = [[]]"
| "Split (c # cs) sep =
     (if c = sep then [] # Split cs sep
      else (case Split cs sep of [] \<Rightarrow> [[c]] | w # ws \<Rightarrow> (c # w) # ws))"

text \<open>\<^verbatim>\<open>strings.SplitN(s, sep, 2)\<close>: cut at the first separator only.\<close>

fun SplitN2 :: "string \<Rightarrow> char \<Rightarrow> string list" where
  "SplitN2 [] sep = [[]]"
| "SplitN2 (c # cs) sep =
     (if c = sep then [[], cs]
      else (case SplitN2 cs sep of [] \<Rightarrow> [[c]] | w # ws \<Rightarrow> (c # w) # ws))"

fun Join :: "string list \<Rightarrow> string \<Rightarrow> string" where
  "Join [] sep = []"
| "Join [x] sep = x"
| "Join (x # y # ys) sep = x @ sep @ Join (y # ys) sep"

text \<open>
  \<^verbatim>\<open>strings.TrimSpace\<close> removes the leading and trailing white space of Unicode. In UTF-8
  these are the six ASCII bytes and the encodings of U+0085, U+00A0, U+1680,
  U+2000 to U+200A, U+2028, U+2029, U+202F, U+205F and U+3000.
\<close>

definition spaceRunes :: "string list" where
  "spaceRunes =
     [[CHR 0x09], [CHR 0x0A], [CHR 0x0B], [CHR 0x0C], [CHR 0x0D], [CHR 0x20],
      [CHR 0xC2, CHR 0x85], [CHR 0xC2, CHR 0xA0],
      [CHR 0xE1, CHR 0x9A, CHR 0x80],
      [CHR 0xE2, CHR 0x80, CHR 0x80], [CHR 0xE2, CHR 0x80, CHR 0x81],
      [CHR 0xE2, CHR 0x80, CHR 0x82], [CHR 0xE2, CHR 0x80, CHR 0x83],
      [CHR 0xE2, CHR 0x80, CHR 0x84], [CHR 0xE2, CHR 0x80, CHR 0x85],
      [CHR 0xE2, CHR 0x80, CHR 0x86], [CHR 0xE2, CHR 0x80, CHR 0x87],
      [CHR 0xE2, CHR 0x80, CHR 0x88], [CHR 0xE2, CHR 0x80, CHR 0x89],
      [CHR 0xE2, CHR 0x80, CHR 0x8A],
      [CHR 0xE2, CHR 0x80, CHR 0xA8], [CHR 0xE2, CHR 0x80, CHR 0xA9],
      [CHR 0xE2, CHR 0x80, CHR 0xAF], [CHR 0xE2, CHR 0x81, CHR 0x9F],
      [CHR 0xE3, CHR 0x80, CHR 0x80]]"

definition leadingSpace :: "string \<Rightarrow> nat" where
  "leadingSpace s = (case find (HasPrefix s) spaceRunes of None \<Rightarrow> 0 | Some e \<Rightarrow> length e)"

definition trailingSpace :: "string \<Rightarrow> nat" where
  "trailingSpace s = (case find (HasSuffix s) spaceRunes of None \<Rightarrow> 0 | Some e \<Rightarrow> length e)"

lemma find_spaceRunes_pos:
  assumes "find P spaceRunes = Some e"
  shows "0 < length e"
proof -
  from assms have "e \<in> set spaceRunes"
    by (auto simp: find_Some_iff in_set_conv_nth)
  then show ?thesis
    by (auto simp: spaceRunes_def)
qed

lemma leadingSpace_le: "leadingSpace s \<le> length s"
proof (cases "find (HasPrefix s) spaceRunes")
  case None
  then show ?thesis by (simp add: leadingSpace_def)
next
  case (Some e)
  then have "HasPrefix s e" by (auto simp: find_Some_iff)
  then have "length e \<le> length s"
    by (metis HasPrefix_def length_take min.cobounded1)
  with Some show ?thesis by (simp add: leadingSpace_def)
qed

lemma trailingSpace_le: "trailingSpace s \<le> length s"
proof (cases "find (HasSuffix s) spaceRunes")
  case None
  then show ?thesis by (simp add: trailingSpace_def)
next
  case (Some e)
  then have "HasSuffix s e" by (auto simp: find_Some_iff)
  with Some show ?thesis by (simp add: trailingSpace_def HasSuffix_def)
qed

lemma leadingSpace_pos: "leadingSpace s \<noteq> 0 \<Longrightarrow> s \<noteq> []"
  using leadingSpace_le [of s] by auto

lemma trailingSpace_pos: "trailingSpace s \<noteq> 0 \<Longrightarrow> s \<noteq> []"
  using trailingSpace_le [of s] by auto

function TrimLeft :: "string \<Rightarrow> string" where
  "TrimLeft s = (if leadingSpace s = 0 then s else TrimLeft (drop (leadingSpace s) s))"
  by pat_completeness auto
termination
proof (relation "measure length")
  fix s :: string
  assume "leadingSpace s \<noteq> 0"
  then have "0 < leadingSpace s" "s \<noteq> []"
    using leadingSpace_pos by auto
  then show "(drop (leadingSpace s) s, s) \<in> measure length"
    by simp
qed simp

function TrimRight :: "string \<Rightarrow> string" where
  "TrimRight s =
     (if trailingSpace s = 0 then s else TrimRight (take (length s - trailingSpace s) s))"
  by pat_completeness auto
termination
proof (relation "measure length")
  fix s :: string
  assume "trailingSpace s \<noteq> 0"
  then have "0 < trailingSpace s" "s \<noteq> []"
    using trailingSpace_pos by auto
  then show "(take (length s - trailingSpace s) s, s) \<in> measure length"
    by simp
qed simp

declare TrimLeft.simps [simp del] TrimRight.simps [simp del]

definition TrimSpace :: "string \<Rightarrow> string" where
  "TrimSpace s = TrimRight (TrimLeft s)"

text \<open>
  \<^verbatim>\<open>strconv.Atoi\<close> for a 64-bit \<^verbatim>\<open>int\<close>. After an optional sign, \<^verbatim>\<open>strconv.ParseUint\<close>
  reads the bytes from the left: a byte that is not a decimal digit is a syntax error,
  and a digit that takes the number read so far past the largest unsigned 64-bit integer
  is a range error, returned at once, before the bytes after it are looked at. The
  second component of the result is False where Go returns an error: the value is then
  0 for a syntax error and the nearest bound of \<^verbatim>\<open>int\<close> for a range error.
\<close>

definition maxInt :: int where
  "maxInt = 2 ^ 63 - 1"

definition minInt :: int where
  "minInt = - (2 ^ 63)"

definition maxUint64 :: int where
  "maxUint64 = 2 ^ 64 - 1"

definition isDigit :: "char \<Rightarrow> bool" where
  "isDigit c = (48 \<le> (of_char c :: nat) \<and> (of_char c :: nat) \<le> 57)"

datatype scan = Value int | SyntaxError | RangeError

fun scanDigits :: "int \<Rightarrow> string \<Rightarrow> scan" where
  "scanDigits n [] = Value n"
| "scanDigits n (c # cs) =
     (if \<not> isDigit c then SyntaxError
      else if maxUint64 < n * 10 + (int (of_char c) - 48) then RangeError
      else scanDigits (n * 10 + (int (of_char c) - 48)) cs)"

definition unsignedPart :: "string \<Rightarrow> string" where
  "unsignedPart s =
     (case s of [] \<Rightarrow> [] | c # cs \<Rightarrow> if c = CHR ''-'' \<or> c = CHR ''+'' then cs else s)"

definition negative :: "string \<Rightarrow> bool" where
  "negative s = (case s of [] \<Rightarrow> False | c # cs \<Rightarrow> c = CHR ''-'')"

definition wellFormedNumber :: "string \<Rightarrow> bool" where
  "wellFormedNumber s = (unsignedPart s \<noteq> [] \<and> list_all isDigit (unsignedPart s))"

definition Atoi :: "string \<Rightarrow> int \<times> bool" where
  "Atoi s =
     (if unsignedPart s = [] then (0, False)
      else (case scanDigits 0 (unsignedPart s) of
              SyntaxError \<Rightarrow> (0, False)
            | RangeError \<Rightarrow> (if negative s then minInt else maxInt, False)
            | Value un \<Rightarrow>
                if \<not> negative s \<and> 2 ^ 63 \<le> un then (maxInt, False)
                else if negative s \<and> 2 ^ 63 < un then (minInt, False)
                else (if negative s then - un else un, True)))"

text \<open>Arithmetic of a 64-bit \<^verbatim>\<open>int\<close> wraps around.\<close>

definition wrap64 :: "int \<Rightarrow> int" where
  "wrap64 x = (x + 2 ^ 63) mod 2 ^ 64 - 2 ^ 63"

section \<open>The data model of a parsed diff\<close>

record DiffLine =
  Type :: string
  Content :: string
  LineNum :: int

record DiffHunk =
  OldStart :: int
  OldCount :: int
  NewStart :: int
  NewCount :: int
  Lines :: "DiffLine list"

record DiffChange =
  FilePath :: string
  Hunks :: "DiffHunk list"

section \<open>parseRange and parseDiff\<close>

text \<open>
  \<^verbatim>\<open>parseRange\<close> drops the error of \<^verbatim>\<open>strconv.Atoi\<close> and keeps its value. The result of
  \<^verbatim>\<open>strings.Split\<close> always has a first part.
\<close>

definition parseRange :: "string \<Rightarrow> int \<times> int" where
  "parseRange rangeStr =
     (let parts = Split rangeStr (CHR '','');
          start = (if 1 \<le> length parts then fst (Atoi (parts ! 0)) else 0);
          count = (if 2 \<le> length parts then fst (Atoi (parts ! 1)) else 1)
      in (start, count))"

text \<open>
  The loop of \<^verbatim>\<open>parseDiff\<close> keeps three variables: the changes completed so far and the
  two pointers \<^verbatim>\<open>currentChange\<close> and \<^verbatim>\<open>currentHunk\<close>, each nil or a value. Appending
  \<^verbatim>\<open>*currentHunk\<close> copies the hunk, so the state is a value.
\<close>

record pstate =
  changes :: "DiffChange list"
  currentChange :: "DiffChange option"
  currentHunk :: "DiffHunk option"

definition closeHunk :: "DiffChange \<Rightarrow> DiffHunk option \<Rightarrow> DiffChange" where
  "closeHunk c ho = (case ho of None \<Rightarrow> c | Some h \<Rightarrow> c\<lparr>Hunks := Hunks c @ [h]\<rparr>)"

definition mismatch :: "string \<Rightarrow> string \<Rightarrow> string" where
  "mismatch p q = ''mismatched file paths in diff: '' @ p @ '' vs '' @ q"

definition contentLine :: "string \<Rightarrow> DiffLine" where
  "contentLine line =
     (if HasPrefix line ''+'' then \<lparr>Type = ''+'', Content = TrimPrefix line ''+'', LineNum = 0\<rparr>
      else if HasPrefix line ''-'' then \<lparr>Type = ''-'', Content = TrimPrefix line ''-'', LineNum = 0\<rparr>
      else \<lparr>Type = '' '', Content = line, LineNum = 0\<rparr>)"

definition hunkHeader :: "string \<Rightarrow> pstate \<Rightarrow> pstate" where
  "hunkHeader line st =
     (let st1 = (case (currentHunk st, currentChange st) of
                   (Some h, Some c) \<Rightarrow> st\<lparr>currentChange := Some (c\<lparr>Hunks := Hunks c @ [h]\<rparr>)\<rparr>
                 | _ \<Rightarrow> st);
          parts = Split line (CHR '' '')
      in if length parts < 3 then st1
         else (let oldPart = TrimPrefix (parts ! 1) ''-'';
                   newPart = TrimPrefix (parts ! 2) ''+'';
                   old = parseRange oldPart;
                   new = parseRange newPart
               in st1\<lparr>currentHunk :=
                        Some \<lparr>OldStart = fst old, OldCount = snd old,
                              NewStart = fst new, NewCount = snd new, Lines = []\<rparr>\<rparr>))"

definition parseLine :: "pstate \<Rightarrow> string \<Rightarrow> string + pstate" where
  "parseLine st raw =
     (let line = TrimSpace raw in
      if line = [] then Inr st
      else if HasPrefix line ''--- a/'' then
        Inr \<lparr>changes = (case currentChange st of
                          None \<Rightarrow> changes st
                        | Some c \<Rightarrow> changes st @ [closeHunk c (currentHunk st)]),
             currentChange = Some \<lparr>FilePath = TrimPrefix line ''--- a/'', Hunks = []\<rparr>,
             currentHunk = None\<rparr>
      else if HasPrefix line ''+++ b/'' then
        (let filePath = TrimPrefix line ''+++ b/'' in
         case currentChange st of
           None \<Rightarrow> Inr st
         | Some c \<Rightarrow> if FilePath c \<noteq> filePath then Inl (mismatch (FilePath c) filePath)
                     else Inr st)
      else if HasPrefix line ''@@'' then Inr (hunkHeader line st)
      else (case currentHunk st of
              None \<Rightarrow> Inr st
            | Some h \<Rightarrow> Inr (st\<lparr>currentHunk := Some (h\<lparr>Lines := Lines h @ [contentLine line]\<rparr>)\<rparr>)))"

fun parseLines :: "pstate \<Rightarrow> string list \<Rightarrow> string + pstate" where
  "parseLines st [] = Inr st"
| "parseLines st (raw # rest) =
     (case parseLine st raw of Inl e \<Rightarrow> Inl e | Inr st' \<Rightarrow> parseLines st' rest)"

definition initialState :: pstate where
  "initialState = \<lparr>changes = [], currentChange = None, currentHunk = None\<rparr>"

text \<open>\<^verbatim>\<open>Inl\<close> is the error of \<^verbatim>\<open>parseDiff\<close>, returned with a nil slice of changes.\<close>

definition parseDiff :: "string \<Rightarrow> string + DiffChange list" where
  "parseDiff diffOutput =
     (case parseLines initialState (Split diffOutput (CHR 0x0A)) of
        Inl e \<Rightarrow> Inl e
      | Inr st \<Rightarrow>
          Inr (case currentChange st of
                 None \<Rightarrow> changes st
               | Some c \<Rightarrow> changes st @ [closeHunk c (currentHunk st)]))"

section \<open>Slices\<close>

text \<open>
  \<^verbatim>\<open>applyHunk\<close> reslices and appends to its argument, and Go bounds \<^verbatim>\<open>s[:n]\<close> by the
  capacity of \<^verbatim>\<open>s\<close>, not by its length. A slice is therefore its elements together with
  what the backing array holds between length and capacity. An append that fits the
  capacity writes in place; one that does not allocates an array whose capacity the
  runtime chooses, which is the parameter \<open>growCap\<close> here, and whose free part is zeroed.
\<close>

record slice =
  elems :: "string list"
  spare :: "string list"

datatype failure = Panic | Error string

definition fresh :: "string list \<Rightarrow> slice" where
  "fresh xs = \<lparr>elems = xs, spare = []\<rparr>"

definition sliceTo :: "slice \<Rightarrow> int \<Rightarrow> failure + slice" where
  "sliceTo s n =
     (if 0 \<le> n \<and> n \<le> int (length (elems s) + length (spare s))
      then Inr \<lparr>elems = take (nat n) (elems s @ spare s),
                spare = drop (nat n) (elems s @ spare s)\<rparr>
      else Inl Panic)"

definition sliceFrom :: "slice \<Rightarrow> int \<Rightarrow> failure + string list" where
  "sliceFrom s n =
     (if 0 \<le> n \<and> n \<le> int (length (elems s)) then Inr (drop (nat n) (elems s))
      else Inl Panic)"

definition appendSlice :: "(nat \<Rightarrow> nat \<Rightarrow> nat) \<Rightarrow> slice \<Rightarrow> string list \<Rightarrow> slice" where
  "appendSlice growCap s ys =
     (if length ys \<le> length (spare s)
      then \<lparr>elems = elems s @ ys, spare = drop (length ys) (spare s)\<rparr>
      else (let need = length (elems s) + length ys
            in \<lparr>elems = elems s @ ys,
                spare = replicate (growCap (length (elems s) + length (spare s)) need - need) []\<rparr>))"

section \<open>applyHunk, applyFileChange and applyDiff\<close>

definition removeOld :: "(nat \<Rightarrow> nat \<Rightarrow> nat) \<Rightarrow> slice \<Rightarrow> int \<Rightarrow> int \<Rightarrow> failure + slice" where
  "removeOld growCap lines start oldCount =
     (if 0 < oldCount then
        (let end0 = wrap64 (start + oldCount);
             end1 = (if int (length (elems lines)) < end0 then int (length (elems lines)) else end0)
         in case sliceTo lines start of
              Inl e \<Rightarrow> Inl e
            | Inr front \<Rightarrow>
                (case sliceFrom lines end1 of
                   Inl e \<Rightarrow> Inl e
                 | Inr rest \<Rightarrow> Inr (appendSlice growCap front rest)))
      else Inr lines)"

definition newLinesOf :: "DiffHunk \<Rightarrow> string list" where
  "newLinesOf hunk = map Content (filter (\<lambda>l. Type l = ''+'' \<or> Type l = '' '') (Lines hunk))"

definition insertNew :: "(nat \<Rightarrow> nat \<Rightarrow> nat) \<Rightarrow> slice \<Rightarrow> int \<Rightarrow> string list \<Rightarrow> failure + slice" where
  "insertNew growCap lines start newLines =
     (if 0 < length newLines then
        (case sliceTo lines start of
           Inl e \<Rightarrow> Inl e
         | Inr front \<Rightarrow>
             (case sliceFrom lines start of
                Inl e \<Rightarrow> Inl e
              | Inr rest \<Rightarrow> Inr (appendSlice growCap front (newLines @ rest))))
      else Inr lines)"

definition applyHunk :: "(nat \<Rightarrow> nat \<Rightarrow> nat) \<Rightarrow> slice \<Rightarrow> DiffHunk \<Rightarrow> failure + slice" where
  "applyHunk growCap lines hunk =
     (let start = wrap64 (OldStart hunk - 1) in
      case removeOld growCap lines start (OldCount hunk) of
        Inl e \<Rightarrow> Inl e
      | Inr lines1 \<Rightarrow> insertNew growCap lines1 start (newLinesOf hunk))"

text \<open>The loop \<^verbatim>\<open>for i := len(change.Hunks) - 1; i >= 0; i--\<close>, with \<open>n = i + 1\<close>.\<close>

fun applyHunksFrom ::
  "(nat \<Rightarrow> nat \<Rightarrow> nat) \<Rightarrow> DiffHunk list \<Rightarrow> nat \<Rightarrow> slice \<Rightarrow> failure + slice" where
  "applyHunksFrom growCap hs 0 lines = Inr lines"
| "applyHunksFrom growCap hs (Suc i) lines =
     (case applyHunk growCap lines (hs ! i) of
        Inl e \<Rightarrow> Inl e
      | Inr lines' \<Rightarrow> applyHunksFrom growCap hs i lines')"

text \<open>
  The machine: \<open>growCap\<close> as above and \<open>pathJoin\<close> for \<^verbatim>\<open>filepath.Join\<close>. The file
  system: what \<^verbatim>\<open>os.ReadFile\<close> returns for a path, the error text or the content, and the
  error text of \<^verbatim>\<open>os.WriteFile\<close> for a path it cannot write. A write that fails is taken
  to leave the file as it was. What the functions print is left out.
\<close>

record machine =
  growCap :: "nat \<Rightarrow> nat \<Rightarrow> nat"
  pathJoin :: "string \<Rightarrow> string \<Rightarrow> string"

record filesys =
  files :: "string \<Rightarrow> string + string"
  writeErr :: "string \<Rightarrow> string option"

definition newContentOf :: "string list \<Rightarrow> string" where
  "newContentOf ls =
     (let newContent = Join ls nl
      in if \<not> HasSuffix newContent nl then newContent @ nl else newContent)"

definition applyFileChange ::
  "machine \<Rightarrow> DiffChange \<Rightarrow> string \<Rightarrow> filesys \<Rightarrow> (failure + unit) \<times> filesys" where
  "applyFileChange m change repoPath fs =
     (let filePath = pathJoin m repoPath (FilePath change) in
      case files fs filePath of
        Inl err \<Rightarrow> (Inl (Error (''failed to read file: '' @ err)), fs)
      | Inr content \<Rightarrow>
          (case applyHunksFrom (growCap m) (Hunks change) (length (Hunks change))
                  (fresh (Split content (CHR 0x0A))) of
             Inl e \<Rightarrow> (Inl e, fs)
           | Inr lines \<Rightarrow>
               (case writeErr fs filePath of
                  Some err \<Rightarrow> (Inl (Error (''failed to write file: '' @ err)), fs)
                | None \<Rightarrow>
                    (Inr (), fs\<lparr>files := (files fs)(filePath := Inr (newContentOf (elems lines)))\<rparr>))))"

fun applyChanges ::
  "machine \<Rightarrow> DiffChange list \<Rightarrow> string \<Rightarrow> filesys \<Rightarrow> (failure + unit) \<times> filesys" where
  "applyChanges m [] repoPath fs = (Inr (), fs)"
| "applyChanges m (change # rest) repoPath fs =
     (case applyFileChange m change repoPath fs of
        (Inl (Error err), fs') \<Rightarrow>
          (Inl (Error (''failed to apply change to '' @ FilePath change @ '': '' @ err)), fs')
      | (Inl Panic, fs') \<Rightarrow> (Inl Panic, fs')
      | (Inr u, fs') \<Rightarrow> applyChanges m rest repoPath fs')"

definition applyDiff ::
  "machine \<Rightarrow> string \<Rightarrow> string \<Rightarrow> filesys \<Rightarrow> (failure + unit) \<times> filesys" where
  "applyDiff m diffOutput repoPath fs =
     (case parseDiff diffOutput of
        Inl err \<Rightarrow> (Inl (Error (''failed to parse diff: '' @ err)), fs)
      | Inr cs \<Rightarrow> applyChanges m cs repoPath fs)"

section \<open>ExecuteTools\<close>

text \<open>
  The handlers run commands and touch the file system, so \<^verbatim>\<open>ExecuteTools\<close> is modelled
  over any handler: a function from the call made and the state of the world to the text
  the handler returns and the new state. The calls are the eight handler functions of
  the source with their arguments.
\<close>

datatype call =
    ExecuteCommand string
  | ReadFileContent string
  | ListDirectory string
  | TestCommand string
  | SearchFiles string string
  | GenerateDiff string
  | ApplyDiffTool string
  | CreateFile string string

record 'w tstate =
  results :: string
  toolCount :: nat
  world :: 'w

definition dispatch ::
  "(call \<Rightarrow> 'w \<Rightarrow> string \<times> 'w) \<Rightarrow> call \<Rightarrow> string \<Rightarrow> 'w tstate \<Rightarrow> 'w tstate" where
  "dispatch handler c header st =
     (case handler c (world st) of
        (result, w') \<Rightarrow> st\<lparr>results := results st @ header @ result @ nl, world := w'\<rparr>)"

definition count :: "'w tstate \<Rightarrow> 'w tstate" where
  "count st = st\<lparr>toolCount := toolCount st + 1\<rparr>"

definition argOf :: "string \<Rightarrow> string \<Rightarrow> string" where
  "argOf line prefix = TrimSpace (TrimPrefix line prefix)"

definition searchStep :: "(call \<Rightarrow> 'w \<Rightarrow> string \<times> 'w) \<Rightarrow> string \<Rightarrow> 'w tstate \<Rightarrow> 'w tstate" where
  "searchStep handler line st =
     (let st1 = count st;
          parts = SplitN2 (TrimPrefix line ''SEARCH_FILES:'') (CHR '' '')
      in if length parts = 2 then
           (let pattern = TrimSpace (parts ! 0);
                directory = TrimSpace (parts ! 1)
            in dispatch handler (SearchFiles pattern directory)
                 (''SEARCH_FILES: '' @ pattern @ '' in '' @ directory @ nl) st1)
         else st1)"

text \<open>The loop that collects the content of a file, from index \<^verbatim>\<open>toolCount\<close> on.\<close>

definition contentLines :: "string list \<Rightarrow> nat \<Rightarrow> string list" where
  "contentLines lines i = takeWhile (\<lambda>l. TrimSpace l \<noteq> ''END_FILE'') (drop i lines)"

definition createStep ::
  "(call \<Rightarrow> 'w \<Rightarrow> string \<times> 'w) \<Rightarrow> string list \<Rightarrow> string \<Rightarrow> 'w tstate \<Rightarrow> 'w tstate" where
  "createStep handler lines line st =
     (let st1 = count st;
          filePath = argOf line ''CREATE_FILE:'';
          content = Join (contentLines lines (toolCount st1)) nl
      in dispatch handler (CreateFile filePath content) (''CREATE_FILE: '' @ filePath @ nl) st1)"

definition toolLine ::
  "(call \<Rightarrow> 'w \<Rightarrow> string \<times> 'w) \<Rightarrow> string list \<Rightarrow> 'w tstate \<Rightarrow> string \<Rightarrow> 'w tstate" where
  "toolLine handler lines st raw =
     (let line = TrimSpace raw in
      if line = [] then st
      else
        (let st1 = (if HasPrefix line ''RUN_COMMAND:'' then
                      dispatch handler (ExecuteCommand (argOf line ''RUN_COMMAND:''))
                        (''RUN_COMMAND: '' @ argOf line ''RUN_COMMAND:'' @ nl) (count st)
                    else st);
             st2 = (if HasPrefix line ''READ_FILE:'' then
                      dispatch handler (ReadFileContent (argOf line ''READ_FILE:''))
                        (''READ_FILE: '' @ argOf line ''READ_FILE:'' @ nl) (count st1)
                    else st1);
             st3 = (if HasPrefix line ''LIST_DIR:'' then
                      dispatch handler (ListDirectory (argOf line ''LIST_DIR:''))
                        (''LIST_DIR: '' @ argOf line ''LIST_DIR:'' @ nl) (count st2)
                    else st2);
             st4 = (if HasPrefix line ''TEST_COMMAND:'' then
                      dispatch handler (TestCommand (argOf line ''TEST_COMMAND:''))
                        (''TEST_COMMAND: '' @ argOf line ''TEST_COMMAND:'' @ nl) (count st3)
                    else st3);
             st5 = (if HasPrefix line ''SEARCH_FILES:'' then searchStep handler line st4 else st4);
             st6 = (if HasPrefix line ''GENERATE_DIFF:'' then
                      dispatch handler (GenerateDiff (argOf line ''GENERATE_DIFF:''))
                        (''GENERATE_DIFF: '' @ argOf line ''GENERATE_DIFF:'' @ nl) (count st5)
                    else st5);
             st7 = (if HasPrefix line ''APPLY_DIFF:'' then
                      dispatch handler (ApplyDiffTool (argOf line ''APPLY_DIFF:''))
                        (''APPLY_DIFF: Applied'' @ nl) (count st6)
                    else st6)
         in if HasPrefix line ''CREATE_FILE:'' then createStep handler lines line st7 else st7))"

definition banner :: string where
  "banner = ''Tool Execution Results:'' @ nl @ ''====================='' @ nl @ nl"

definition ExecuteTools :: "(call \<Rightarrow> 'w \<Rightarrow> string \<times> 'w) \<Rightarrow> string \<Rightarrow> 'w \<Rightarrow> string \<times> 'w" where
  "ExecuteTools handler response w =
     (let lines = Split response (CHR 0x0A);
          st = foldl (toolLine handler lines) \<lparr>results = banner, toolCount = 0, world = w\<rparr> lines
      in (results st, world st))"

text \<open>A handler that only records the calls made, in order, and returns no text.\<close>

definition recorder :: "call \<Rightarrow> call list \<Rightarrow> string \<times> call list" where
  "recorder c log = ([], log @ [c])"

definition callsOf :: "string \<Rightarrow> call list" where
  "callsOf response = snd (ExecuteTools recorder response [])"

section \<open>Sample values\<close>

text \<open>A growth policy for the evaluations below: at least double the old capacity.\<close>

definition doubleCap :: "nat \<Rightarrow> nat \<Rightarrow> nat" where
  "doubleCap old need = max need (2 * old)"

definition plainJoin :: "string \<Rightarrow> string \<Rightarrow> string" where
  "plainJoin dir name = dir @ ''/'' @ name"

definition sampleMachine :: machine where
  "sampleMachine = \<lparr>growCap = doubleCap, pathJoin = plainJoin\<rparr>"

definition added :: "string \<Rightarrow> DiffLine" where
  "added s = \<lparr>Type = ''+'', Content = s, LineNum = 0\<rparr>"

definition removed :: "string \<Rightarrow> DiffLine" where
  "removed s = \<lparr>Type = ''-'', Content = s, LineNum = 0\<rparr>"

definition hunkOf :: "int \<Rightarrow> int \<Rightarrow> DiffLine list \<Rightarrow> DiffHunk" where
  "hunkOf start cnt ls =
     \<lparr>OldStart = start, OldCount = cnt, NewStart = start, NewCount = 1, Lines = ls\<rparr>"

definition sampleFs :: "string \<Rightarrow> filesys" where
  "sampleFs content =
     \<lparr>files = (\<lambda>p. if p = ''repo/f.txt'' then Inr content else Inl ''no such file or directory''),
      writeErr = (\<lambda>p. None)\<rparr>"

definition twoHunkDiff :: string where
  "twoHunkDiff =
     ''--- a/f.txt'' @ nl @ ''+++ b/f.txt'' @ nl @
     ''@@ -1,1 +1,1 @@'' @ nl @ ''-a'' @ nl @ ''+A'' @ nl @
     ''@@ -3,1 +3,1 @@'' @ nl @ ''-c'' @ nl @ ''+C'' @ nl"

definition insertDiff :: string where
  "insertDiff =
     ''--- a/f.txt'' @ nl @ ''+++ b/f.txt'' @ nl @ ''@@ -1,0 +1,1 @@'' @ nl @ ''+new line'' @ nl"

definition threeLines :: string where
  "threeLines = ''a'' @ nl @ ''b'' @ nl @ ''c''"

definition overflowDiff :: string where
  "overflowDiff =
     ''--- a/f.txt'' @ nl @ ''+++ b/f.txt'' @ nl @
     ''@@ -2,9223372036854775807 +2,0 @@'' @ nl @ ''-b'' @ nl"

definition threeFs :: filesys where
  "threeFs =
     \<lparr>files = (\<lambda>p. if p = ''repo/a.txt'' then Inr ''a''
                   else if p = ''repo/c.txt'' then Inr ''c''
                   else Inl ''no such file or directory''),
      writeErr = (\<lambda>p. None)\<rparr>"

definition changeOf :: "string \<Rightarrow> string \<Rightarrow> string \<Rightarrow> DiffChange" where
  "changeOf path old new = \<lparr>FilePath = path, Hunks = [hunkOf 1 1 [removed old, added new]]\<rparr>"

definition fileDiff :: "string \<Rightarrow> string \<Rightarrow> string \<Rightarrow> string" where
  "fileDiff path old new =
     ''--- a/'' @ path @ nl @ ''+++ b/'' @ path @ nl @ ''@@ -1,1 +1,1 @@'' @ nl @
     ''-'' @ old @ nl @ ''+'' @ new @ nl"

definition threeDiff :: string where
  "threeDiff = fileDiff ''a.txt'' ''a'' ''A'' @ fileDiff ''b.txt'' ''b'' ''B'' @ fileDiff ''c.txt'' ''c'' ''C''"

definition badDiff :: string where
  "badDiff = fileDiff ''a.txt'' ''a'' ''A'' @ ''--- a/x.txt'' @ nl @ ''+++ b/y.txt''"

section \<open>The order of the hunks and the post-image, as the specification words them\<close>



text \<open>
  The content written after the hunks, in the words of the specification: the lines
  joined with a newline between each two of them, and one newline appended if the
  result does not already end in one. It is not a translation of the source.
\<close>

definition joinedLines :: "string list \<Rightarrow> string" where
  "joinedLines ls = (case ls of [] \<Rightarrow> [] | x # xs \<Rightarrow> x @ concat (map (\<lambda>y. CHR 0x0A # y) xs))"

definition specContent :: "string list \<Rightarrow> string" where
  "specContent ls =
     (if joinedLines ls \<noteq> [] \<and> last (joinedLines ls) = CHR 0x0A then joinedLines ls
      else joinedLines ls @ [CHR 0x0A])"

text \<open>
  The number that the decimal digits at the front of a token spell, after its sign. It
  is not a translation of the source: it says where a token leaves the range of an
  unsigned 64-bit integer.
\<close>

definition digitsVal :: "string \<Rightarrow> int" where
  "digitsVal ds = foldl (\<lambda>n c. n * 10 + (int (of_char c) - 48)) 0 ds"

definition leadingValue :: "string \<Rightarrow> int" where
  "leadingValue t = digitsVal (takeWhile isDigit (unsignedPart t))"

section \<open>applyHunk inside and outside the range of the sequence\<close>

lemma wrap64_id: "minInt \<le> x \<Longrightarrow> x \<le> maxInt \<Longrightarrow> wrap64 x = x"
  by (simp add: wrap64_def minInt_def maxInt_def)

lemma appendSlice_elems: "elems (appendSlice g s ys) = elems s @ ys"
  by (simp add: appendSlice_def Let_def)

lemma sliceTo_in_range:
  assumes "0 \<le> n" "n \<le> int (length (elems s))"
  shows "\<exists>t. sliceTo s n = Inr t \<and> elems t = take (nat n) (elems s)"
  using assms by (simp add: sliceTo_def)

lemma sliceFrom_in_range:
  assumes "0 \<le> n" "n \<le> int (length (elems s))"
  shows "sliceFrom s n = Inr (drop (nat n) (elems s))"
  using assms by (simp add: sliceFrom_def)

lemma removeOld_in_range:
  assumes "0 \<le> start" "start \<le> int (length (elems s))" "start + max 0 cnt \<le> maxInt"
  shows "\<exists>t. removeOld g s start cnt = Inr t \<and>
             elems t = take (nat start) (elems s) @ drop (nat start + nat cnt) (elems s)"
proof (cases "0 < cnt")
  case False
  then show ?thesis by (simp add: removeOld_def)
next
  case True
  define end0 where "end0 = wrap64 (start + cnt)"
  define end1 where "end1 = (if int (length (elems s)) < end0 then int (length (elems s)) else end0)"
  have e0: "end0 = start + cnt"
    unfolding end0_def using assms True by (intro wrap64_id) (auto simp: minInt_def)
  have e1: "0 \<le> end1" "end1 \<le> int (length (elems s))"
    using e0 assms True by (auto simp: end1_def)
  have dr: "drop (nat end1) (elems s) = drop (nat start + nat cnt) (elems s)"
    using e0 assms True by (auto simp: end1_def nat_add_distrib)
  obtain front where f: "sliceTo s start = Inr front" "elems front = take (nat start) (elems s)"
    using sliceTo_in_range [OF assms(1,2)] by blast
  have "removeOld g s start cnt = Inr (appendSlice g front (drop (nat end1) (elems s)))"
    using True f sliceFrom_in_range [OF e1]
    by (simp add: removeOld_def Let_def end0_def [symmetric] end1_def [symmetric])
  then show ?thesis
    using f dr by (simp add: appendSlice_elems)
qed

lemma insertNew_in_range:
  assumes "0 \<le> start" "start \<le> int (length (elems s))"
  shows "\<exists>t. insertNew g s start ys = Inr t \<and>
             elems t = take (nat start) (elems s) @ ys @ drop (nat start) (elems s)"
proof (cases "ys = []")
  case True
  then show ?thesis by (simp add: insertNew_def)
next
  case False
  obtain front where f: "sliceTo s start = Inr front" "elems front = take (nat start) (elems s)"
    using sliceTo_in_range [OF assms] by blast
  then show ?thesis
    using False sliceFrom_in_range [OF assms]
    by (simp add: insertNew_def appendSlice_elems)
qed

lemma applyHunk_in_range:
  assumes "1 \<le> OldStart h" "OldStart h \<le> int (length (elems s)) + 1"
    and "OldStart h - 1 + max 0 (OldCount h) \<le> maxInt"
  shows "\<exists>t. applyHunk g s h = Inr t \<and>
             elems t = take (nat (OldStart h - 1)) (elems s) @ newLinesOf h @
                       drop (nat (OldStart h - 1) + nat (OldCount h)) (elems s)"
proof -
  define start where "start = OldStart h - 1"
  have w: "wrap64 (OldStart h - 1) = start"
    unfolding start_def using assms by (intro wrap64_id) (auto simp: minInt_def)
  have s: "0 \<le> start" "start \<le> int (length (elems s))" "start + max 0 (OldCount h) \<le> maxInt"
    using assms by (auto simp: start_def)
  obtain t where t: "removeOld g s start (OldCount h) = Inr t"
    "elems t = take (nat start) (elems s) @ drop (nat start + nat (OldCount h)) (elems s)"
    using removeOld_in_range [OF s] by blast
  have len: "start \<le> int (length (elems t))"
    using s t(2) by simp
  obtain u where u: "insertNew g t start (newLinesOf h) = Inr u"
    "elems u = take (nat start) (elems t) @ newLinesOf h @ drop (nat start) (elems t)"
    using insertNew_in_range [OF s(1) len] by blast
  have "applyHunk g s h = Inr u"
    using t(1) u(1) by (simp add: applyHunk_def w)
  moreover have "elems u = take (nat start) (elems s) @ newLinesOf h @
                       drop (nat start + nat (OldCount h)) (elems s)"
    using u(2) t(2) s by simp
  ultimately show ?thesis unfolding start_def by blast
qed

lemma applyHunk_noop:
  assumes "OldCount h \<le> 0" "newLinesOf h = []"
  shows "applyHunk g s h = Inr s"
  using assms by (simp add: applyHunk_def removeOld_def insertNew_def)

lemma applyHunk_negative_start:
  assumes "minInt < OldStart h" "OldStart h \<le> 0" "0 < OldCount h \<or> newLinesOf h \<noteq> []"
  shows "applyHunk g s h = Inl Panic"
proof -
  have w: "wrap64 (OldStart h - 1) = OldStart h - 1"
    using assms by (intro wrap64_id) (auto simp: maxInt_def minInt_def)
  have neg: "sliceTo t (OldStart h - 1) = Inl Panic" for t
    using assms(2) by (simp add: sliceTo_def)
  show ?thesis
  proof (cases "0 < OldCount h")
    case True
    then show ?thesis by (simp add: applyHunk_def removeOld_def w neg Let_def)
  next
    case False
    with assms(3) show ?thesis by (simp add: applyHunk_def removeOld_def insertNew_def w neg)
  qed
qed

lemma applyHunk_past_capacity:
  assumes "int (length (elems s) + length (spare s)) + 1 < OldStart h" "OldStart h \<le> maxInt"
    and "0 < OldCount h \<or> newLinesOf h \<noteq> []"
  shows "applyHunk g s h = Inl Panic"
proof -
  have w: "wrap64 (OldStart h - 1) = OldStart h - 1"
    using assms by (intro wrap64_id) (auto simp: maxInt_def minInt_def)
  have past: "sliceTo s (OldStart h - 1) = Inl Panic"
    using assms(1) by (simp add: sliceTo_def)
  show ?thesis
  proof (cases "0 < OldCount h")
    case True
    then show ?thesis by (simp add: applyHunk_def removeOld_def w past Let_def)
  next
    case False
    with assms(3) show ?thesis by (simp add: applyHunk_def removeOld_def insertNew_def w past)
  qed
qed

lemma applyHunk_past_length_insert:
  assumes "int (length (elems s)) + 1 < OldStart h" "OldStart h \<le> maxInt"
    and "OldCount h \<le> 0" "newLinesOf h \<noteq> []"
  shows "applyHunk g s h = Inl Panic"
proof -
  have w: "wrap64 (OldStart h - 1) = OldStart h - 1"
    using assms by (intro wrap64_id) (auto simp: maxInt_def minInt_def)
  have past: "sliceFrom s (OldStart h - 1) = Inl Panic"
    using assms(1) by (simp add: sliceFrom_def)
  show ?thesis
    using assms(3,4)
    by (simp add: applyHunk_def removeOld_def insertNew_def w past Let_def sliceTo_def)
qed

lemma applyHunk_wrapped_start:
  assumes "OldStart h = minInt" "int (length (elems s) + length (spare s)) < maxInt"
    and "0 < OldCount h \<or> newLinesOf h \<noteq> []"
  shows "applyHunk g s h = Inl Panic"
proof -
  have w: "wrap64 (OldStart h - 1) = maxInt"
    using assms(1) by (simp add: wrap64_def maxInt_def minInt_def)
  have past: "sliceTo s maxInt = Inl Panic"
    using assms(2) by (simp add: sliceTo_def)
  show ?thesis
  proof (cases "0 < OldCount h")
    case True
    then show ?thesis by (simp add: applyHunk_def removeOld_def w past Let_def)
  next
    case False
    with assms(3) show ?thesis by (simp add: applyHunk_def removeOld_def insertNew_def w past)
  qed
qed

lemma applyHunk_clamps_removal:
  assumes "1 \<le> OldStart h" "OldStart h \<le> int (length (elems s)) + 1"
    and "int (length (elems s)) < OldStart h - 1 + OldCount h"
    and "OldStart h - 1 + OldCount h \<le> maxInt"
  shows "\<exists>t. applyHunk g s h = Inr t \<and>
             elems t = take (nat (OldStart h - 1)) (elems s) @ newLinesOf h"
proof -
  have "OldStart h - 1 + max 0 (OldCount h) \<le> maxInt"
    using assms by auto
  from applyHunk_in_range [OF assms(1,2) this, of g]
  obtain t where t: "applyHunk g s h = Inr t"
    "elems t = take (nat (OldStart h - 1)) (elems s) @ newLinesOf h @
               drop (nat (OldStart h - 1) + nat (OldCount h)) (elems s)"
    by blast
  have "length (elems s) \<le> nat (OldStart h - 1) + nat (OldCount h)"
    using assms by linarith
  with t show ?thesis by simp
qed

lemma parse_overflow: "parseDiff overflowDiff =
     Inr [\<lparr>FilePath = ''f.txt'',
           Hunks = [\<lparr>OldStart = 2, OldCount = 9223372036854775807, NewStart = 2, NewCount = 0,
                     Lines = [removed ''b'']\<rparr>]\<rparr>]"
  by code_simp

lemma hunk_overflow:
  "applyHunk g (fresh [''a'', ''b'', ''c''])
     \<lparr>OldStart = 2, OldCount = 9223372036854775807, NewStart = 2, NewCount = 0,
      Lines = [removed ''b'']\<rparr> = Inl Panic"
  by (simp add: applyHunk_def removeOld_def sliceTo_def sliceFrom_def fresh_def wrap64_def Let_def)

text \<open>
  C4. A hunk whose \<open>OldCount\<close> exceeds the lines that remain from its start should have
  the end of its removal clamped to the length of the sequence, with no slice out of
  range. The clamp compares \<open>start + OldCount\<close> after the addition has wrapped around:
  for the hunk header \<^verbatim>\<open>@@ -2,9223372036854775807 +2,0 @@\<close> on a file of three lines the
  start is the second line, the count exceeds the two lines that remain, the end is
  negative, the clamp does not apply, and \<^verbatim>\<open>lines[end:]\<close> panics. With the count 5 in
  place of the largest one the same hunk is clamped and leaves the first line.
\<close>

theorem applyHunk_clamp_overflow:
  "parseDiff overflowDiff =
     Inr [\<lparr>FilePath = ''f.txt'',
           Hunks = [\<lparr>OldStart = 2, OldCount = 9223372036854775807, NewStart = 2, NewCount = 0,
                     Lines = [removed ''b'']\<rparr>]\<rparr>] \<and>
   applyHunk doubleCap (fresh [''a'', ''b'', ''c''])
     \<lparr>OldStart = 2, OldCount = 9223372036854775807, NewStart = 2, NewCount = 0,
      Lines = [removed ''b'']\<rparr> = Inl Panic \<and>
   applyDiff sampleMachine overflowDiff ''repo'' (sampleFs threeLines) =
     (Inl Panic, sampleFs threeLines) \<and>
   map_sum id elems (applyHunk doubleCap (fresh [''a'', ''b'', ''c''])
     \<lparr>OldStart = 2, OldCount = 5, NewStart = 2, NewCount = 0, Lines = [removed ''b'']\<rparr>) =
     Inr [''a'']"
proof -
  have onFile: "applyFileChange sampleMachine
      \<lparr>FilePath = ''f.txt'',
       Hunks = [\<lparr>OldStart = 2, OldCount = 9223372036854775807, NewStart = 2, NewCount = 0,
                 Lines = [removed ''b'']\<rparr>]\<rparr>
      ''repo'' (sampleFs threeLines) =
     (Inl Panic, sampleFs threeLines)"
    by (simp add: applyFileChange_def sampleMachine_def plainJoin_def sampleFs_def threeLines_def nl_def
        applyHunk_def removeOld_def sliceTo_def sliceFrom_def fresh_def wrap64_def Let_def)
  have run: "applyDiff sampleMachine overflowDiff ''repo'' (sampleFs threeLines) =
     (Inl Panic, sampleFs threeLines)"
    by (simp add: applyDiff_def parse_overflow onFile)
  have clamp: "map_sum id elems (applyHunk doubleCap (fresh [''a'', ''b'', ''c''])
     \<lparr>OldStart = 2, OldCount = 5, NewStart = 2, NewCount = 0, Lines = [removed ''b'']\<rparr>) =
     Inr [''a'']"
    by (simp add: applyHunk_def removeOld_def insertNew_def sliceTo_def sliceFrom_def appendSlice_def
        fresh_def newLinesOf_def removed_def wrap64_def Let_def)
  show ?thesis
    using parse_overflow hunk_overflow [of doubleCap] run clamp by simp
qed

text \<open>
  C10, as amended. \<^verbatim>\<open>applyHunk\<close> slices without a panic when \<open>OldStart\<close> is a position
  of the sequence (\<open>1 \<le> OldStart \<le> length + 1\<close>) and \<open>OldStart - 1 + OldCount\<close> does not
  overflow. A hunk that removes nothing and inserts nothing returns the sequence as it
  is, whatever its \<open>OldStart\<close>. A hunk that removes or inserts something panics when
  \<open>OldStart \<le> 0\<close> (a negative index, or the wrapped one of the least \<^verbatim>\<open>int\<close>) and when
  \<open>OldStart\<close> is more than one past the capacity of the slice, which is its length for
  the slice \<^verbatim>\<open>applyFileChange\<close> gets from \<^verbatim>\<open>strings.Split\<close>.
\<close>

theorem applyHunk_start_bound:
  "(1 \<le> OldStart h \<and> OldStart h \<le> int (length (elems s)) + 1 \<and>
      OldStart h - 1 + max 0 (OldCount h) \<le> maxInt \<longrightarrow>
      (\<exists>t. applyHunk g s h = Inr t)) \<and>
   (OldCount h \<le> 0 \<and> newLinesOf h = [] \<longrightarrow> applyHunk g s h = Inr s) \<and>
   (minInt \<le> OldStart h \<and> OldStart h \<le> 0 \<and>
      int (length (elems s) + length (spare s)) < maxInt \<and>
      (0 < OldCount h \<or> newLinesOf h \<noteq> []) \<longrightarrow>
      applyHunk g s h = Inl Panic) \<and>
   (int (length (elems s) + length (spare s)) + 1 < OldStart h \<and> OldStart h \<le> maxInt \<and>
      (0 < OldCount h \<or> newLinesOf h \<noteq> []) \<longrightarrow>
      applyHunk g s h = Inl Panic)"
proof (intro conjI impI)
  assume "1 \<le> OldStart h \<and> OldStart h \<le> int (length (elems s)) + 1 \<and>
      OldStart h - 1 + max 0 (OldCount h) \<le> maxInt"
  then show "\<exists>t. applyHunk g s h = Inr t"
    using applyHunk_in_range [of h s g] by blast
next
  assume "OldCount h \<le> 0 \<and> newLinesOf h = []"
  then show "applyHunk g s h = Inr s"
    by (simp add: applyHunk_noop)
next
  assume a: "minInt \<le> OldStart h \<and> OldStart h \<le> 0 \<and>
      int (length (elems s) + length (spare s)) < maxInt \<and>
      (0 < OldCount h \<or> newLinesOf h \<noteq> [])"
  show "applyHunk g s h = Inl Panic"
  proof (cases "OldStart h = minInt")
    case True
    with a show ?thesis by (intro applyHunk_wrapped_start) auto
  next
    case False
    with a show ?thesis by (intro applyHunk_negative_start) auto
  qed
next
  assume "int (length (elems s) + length (spare s)) + 1 < OldStart h \<and> OldStart h \<le> maxInt \<and>
      (0 < OldCount h \<or> newLinesOf h \<noteq> [])"
  then show "applyHunk g s h = Inl Panic"
    by (intro applyHunk_past_capacity) auto
qed

theorem applyHunk_start_bound_witness:
  "(\<exists>t. applyHunk doubleCap (fresh [''a'', ''b'']) (hunkOf 3 0 [added ''X'']) = Inr t) \<and>
   applyHunk doubleCap (fresh [''a'', ''b'']) (hunkOf 0 0 []) = Inr (fresh [''a'', ''b'']) \<and>
   applyHunk doubleCap (fresh [''a'', ''b'']) (hunkOf 0 1 []) = Inl Panic \<and>
   applyHunk doubleCap (fresh [''a'', ''b'']) (hunkOf 4 0 [added ''X'']) = Inl Panic"
  using applyHunk_start_bound [of "hunkOf 3 0 [added ''X'']" "fresh [''a'', ''b'']" doubleCap]
    applyHunk_start_bound [of "hunkOf 0 0 []" "fresh [''a'', ''b'']" doubleCap]
    applyHunk_start_bound [of "hunkOf 0 1 []" "fresh [''a'', ''b'']" doubleCap]
    applyHunk_start_bound [of "hunkOf 4 0 [added ''X'']" "fresh [''a'', ''b'']" doubleCap]
  by (simp add: hunkOf_def fresh_def newLinesOf_def maxInt_def minInt_def added_def)

text \<open>
  C10 as stated fails twice. Outside the range, at \<open>OldStart = 0\<close>, a hunk with nothing
  to remove and nothing to insert makes no slice at all and returns the sequence. Inside
  the range, \<open>start + OldCount\<close> wraps around for the largest count, the clamp does not
  apply to the negative end, and \<^verbatim>\<open>lines[end:]\<close> panics.
\<close>

theorem applyHunk_start_bound_counterexample:
  "applyHunk doubleCap (fresh [''a'', ''b'']) (hunkOf 0 0 []) = Inr (fresh [''a'', ''b'']) \<and>
   applyHunk doubleCap (fresh [''a'', ''b'']) (hunkOf 2 9223372036854775807 []) = Inl Panic"
  by (simp add: applyHunk_def removeOld_def insertNew_def sliceTo_def sliceFrom_def fresh_def
      hunkOf_def newLinesOf_def wrap64_def Let_def)

section \<open>Hunks are applied last to first\<close>






section \<open>Two worked diffs\<close>

lemma parse_two: "parseDiff twoHunkDiff =
     Inr [\<lparr>FilePath = ''f.txt'',
           Hunks = [hunkOf 1 1 [removed ''a'', added ''A''], hunkOf 3 1 [removed ''c'', added ''C'']]\<rparr>]"
  by code_simp

lemma apply_two: "map_sum id elems (applyHunksFrom g
       [hunkOf 1 1 [removed ''a'', added ''A''], hunkOf 3 1 [removed ''c'', added ''C'']] 2
       (fresh [''a'', ''b'', ''c'', ''d''])) = Inr [''A'', ''b'', ''C'', ''d'']"
  by (simp add: numeral_2_eq_2 applyHunk_def removeOld_def insertNew_def sliceTo_def sliceFrom_def
      appendSlice_def fresh_def hunkOf_def newLinesOf_def added_def removed_def wrap64_def Let_def)

text \<open>
  C1. The diff text with two hunks for one file parses to one change whose hunks are
  \<open>{old 1,1 new 1,1}\<close> with lines \<open>-a\<close>, \<open>+A\<close> and \<open>{old 3,1 new 3,1}\<close> with lines
  \<open>-c\<close>, \<open>+C\<close>; applying its hunks to the lines a, b, c, d gives A, b, C, d, whatever
  the runtime's growth policy.
\<close>

theorem two_hunks_post_image:
  "parseDiff twoHunkDiff =
     Inr [\<lparr>FilePath = ''f.txt'',
           Hunks = [hunkOf 1 1 [removed ''a'', added ''A''], hunkOf 3 1 [removed ''c'', added ''C'']]\<rparr>] \<and>
   map_sum id elems (applyHunksFrom g
       [hunkOf 1 1 [removed ''a'', added ''A''], hunkOf 3 1 [removed ''c'', added ''C'']] 2
       (fresh [''a'', ''b'', ''c'', ''d''])) = Inr [''A'', ''b'', ''C'', ''d'']"
  using parse_two apply_two [of g] by simp

lemma parse_insert: "parseDiff insertDiff =
     Inr [\<lparr>FilePath = ''f.txt'', Hunks = [hunkOf 1 0 [added ''new line'']]\<rparr>]"
  by code_simp

lemma Join_joinedLines: "Join ls nl = joinedLines ls"
  by (induction ls nl rule: Join.induct) (simp_all add: joinedLines_def nl_def)

lemma HasSuffix_newline: "HasSuffix s nl \<longleftrightarrow> s \<noteq> [] \<and> last s = CHR 0x0A"
  by (cases s rule: rev_cases) (auto simp: HasSuffix_def nl_def)

lemma newContentOf_specContent: "newContentOf ls = specContent ls"
  unfolding newContentOf_def specContent_def Let_def Join_joinedLines HasSuffix_newline
  by (simp add: nl_def)

lemma apply_insert:
  assumes "files fs (pathJoin m repoPath ''f.txt'') = Inr []"
    and "writeErr fs (pathJoin m repoPath ''f.txt'') = None"
  shows "applyFileChange m \<lparr>FilePath = ''f.txt'', Hunks = [hunkOf 1 0 [added ''new line'']]\<rparr> repoPath fs =
      (Inr (), fs\<lparr>files := (files fs)(pathJoin m repoPath ''f.txt'' := Inr (''new line'' @ nl))\<rparr>)"
  using assms
  by (simp add: applyFileChange_def applyHunk_def removeOld_def insertNew_def sliceTo_def
      sliceFrom_def appendSlice_def fresh_def hunkOf_def newLinesOf_def added_def wrap64_def
      newContentOf_def HasSuffix_def nl_def Let_def)

lemma applyFileChange_writes:
  assumes "files fs (pathJoin m repoPath path) = Inr content"
    and "writeErr fs (pathJoin m repoPath path) = None"
    and "applyHunksFrom (growCap m) hs (length hs) (fresh (Split content (CHR 0x0A))) = Inr t"
  shows "applyFileChange m \<lparr>FilePath = path, Hunks = hs\<rparr> repoPath fs =
      (Inr (), fs\<lparr>files := (files fs)(pathJoin m repoPath path := Inr (specContent (elems t)))\<rparr>)"
  using assms by (simp add: applyFileChange_def newContentOf_specContent)

text \<open>
  C2. The diff with the hunk header \<^verbatim>\<open>@@ -1,0 +1,1 @@\<close> and the added line
  \<^verbatim>\<open>+new line\<close> parses to one change with one hunk, and applying the diff to a file
  that is empty and can be written leaves the content \<^verbatim>\<open>new line\<close> followed by one
  newline. For every change, whenever its hunks apply to a file that can be read and
  written, the content written is the lines joined with newline separators, with one
  newline appended exactly when the joined lines do not already end in one: nothing is
  appended to the two lines \<^verbatim>\<open>new line\<close> and the empty line, and a newline is appended to
  the two lines A and b.
\<close>

theorem insertion_into_empty_file:
  "parseDiff insertDiff =
     Inr [\<lparr>FilePath = ''f.txt'', Hunks = [hunkOf 1 0 [added ''new line'']]\<rparr>] \<and>
   (files fs (pathJoin m repoPath ''f.txt'') = Inr [] \<and>
    writeErr fs (pathJoin m repoPath ''f.txt'') = None \<longrightarrow>
    applyDiff m insertDiff repoPath fs =
      (Inr (), fs\<lparr>files := (files fs)(pathJoin m repoPath ''f.txt'' := Inr (''new line'' @ nl))\<rparr>)) \<and>
   (files fs (pathJoin m repoPath path) = Inr content \<and>
    writeErr fs (pathJoin m repoPath path) = None \<and>
    applyHunksFrom (growCap m) hs (length hs) (fresh (Split content (CHR 0x0A))) = Inr t \<longrightarrow>
    applyFileChange m \<lparr>FilePath = path, Hunks = hs\<rparr> repoPath fs =
      (Inr (), fs\<lparr>files := (files fs)(pathJoin m repoPath path := Inr (specContent (elems t)))\<rparr>)) \<and>
   newContentOf ls = specContent ls \<and>
   newContentOf [''new line'', []] = [CHR ''n'', CHR ''e'', CHR ''w'', CHR '' '', CHR ''l'', CHR ''i'',
     CHR ''n'', CHR ''e'', CHR 0x0A] \<and>
   newContentOf [''A'', ''b''] = [CHR ''A'', CHR 0x0A, CHR ''b'', CHR 0x0A] \<and>
   newContentOf [] = [CHR 0x0A]"
proof -
  have 1: "newContentOf [''new line'', []] = [CHR ''n'', CHR ''e'', CHR ''w'', CHR '' '', CHR ''l'',
      CHR ''i'', CHR ''n'', CHR ''e'', CHR 0x0A]"
    and 2: "newContentOf [''A'', ''b''] = [CHR ''A'', CHR 0x0A, CHR ''b'', CHR 0x0A]"
    and 3: "newContentOf [] = [CHR 0x0A]"
    by (simp_all add: newContentOf_def HasSuffix_def nl_def)
  show ?thesis
    using apply_insert [of fs m repoPath] applyFileChange_writes [of fs m repoPath path content hs t]
    by (simp add: parse_insert applyDiff_def newContentOf_specContent [of ls] 1 2 3)
qed

theorem insertion_into_empty_file_witness:
  "applyDiff sampleMachine insertDiff ''repo'' (sampleFs []) =
     (Inr (), (sampleFs [])\<lparr>files := (files (sampleFs []))(''repo/f.txt'' := Inr (''new line'' @ nl))\<rparr>) \<and>
   applyFileChange sampleMachine \<lparr>FilePath = ''f.txt'', Hunks = [hunkOf 1 1 [removed ''a'', added ''A'']]\<rparr>
     ''repo'' (sampleFs (''a'' @ nl @ ''b'')) =
     (Inr (), (sampleFs (''a'' @ nl @ ''b''))\<lparr>files := (files (sampleFs (''a'' @ nl @ ''b'')))
        (''repo/f.txt'' := Inr (''A'' @ nl @ ''b'' @ nl))\<rparr>)"
proof -
  have run: "applyHunksFrom (growCap sampleMachine) [hunkOf 1 1 [removed ''a'', added ''A'']]
      (length [hunkOf 1 1 [removed ''a'', added ''A'']]) (fresh (Split (''a'' @ nl @ ''b'') (CHR 0x0A))) =
      Inr \<lparr>elems = [''A'', ''b''], spare = []\<rparr>"
    by (simp add: applyHunk_def removeOld_def insertNew_def sliceTo_def sliceFrom_def
        appendSlice_def fresh_def hunkOf_def newLinesOf_def added_def removed_def wrap64_def
        sampleMachine_def nl_def Let_def)
  have content: "specContent [''A'', ''b''] = ''A'' @ nl @ ''b'' @ nl"
    by (simp add: specContent_def joinedLines_def nl_def)
  show ?thesis
    using insertion_into_empty_file [of "sampleFs []" sampleMachine "''repo''" "''f.txt''" "[]"
        "[]" "\<lparr>elems = [[]], spare = []\<rparr>" "[]"]
      insertion_into_empty_file [of "sampleFs (''a'' @ nl @ ''b'')" sampleMachine "''repo''" "''f.txt''"
        "''a'' @ nl @ ''b''" "[hunkOf 1 1 [removed ''a'', added ''A'']]"
        "\<lparr>elems = [''A'', ''b''], spare = []\<rparr>" "[]"] run content
    by (simp add: sampleFs_def sampleMachine_def plainJoin_def)
qed

section \<open>parseRange\<close>

lemma scanDigits_syntax:
  "\<not> list_all isDigit cs \<Longrightarrow> scanDigits n cs = SyntaxError \<or> scanDigits n cs = RangeError"
  by (induction cs arbitrary: n) auto

lemma scanDigits_short:
  "0 \<le> n \<Longrightarrow> (n + 1) * 10 ^ length cs \<le> maxUint64 + 1 \<Longrightarrow> scanDigits n cs \<noteq> RangeError"
proof (induction cs arbitrary: n)
  case Nil
  then show ?case by simp
next
  case (Cons c cs)
  show ?case
  proof (cases "isDigit c")
    case False
    then show ?thesis by simp
  next
    case True
    define d where "d = int (of_char c) - 48"
    define p :: int where "p = 10 ^ length cs"
    have p: "1 \<le> p" by (simp add: p_def)
    have d: "0 \<le> d" "d \<le> 9"
      using True by (auto simp: isDigit_def d_def)
    have "(n * 10 + d + 1) * p \<le> ((n + 1) * 10) * p"
      using d p by (intro mult_right_mono) auto
    also have "\<dots> = (n + 1) * 10 ^ length (c # cs)"
      by (simp add: p_def)
    also have "\<dots> \<le> maxUint64 + 1"
      using Cons.prems(2) .
    finally have le: "(n * 10 + d + 1) * p \<le> maxUint64 + 1" .
    have "(n * 10 + d + 1) * 1 \<le> (n * 10 + d + 1) * p"
      using d p Cons.prems(1) by (intro mult_left_mono) auto
    with le have "n * 10 + d \<le> maxUint64"
      by simp
    moreover have "scanDigits (n * 10 + d) cs \<noteq> RangeError"
      using Cons.IH [of "n * 10 + d"] d Cons.prems(1) le by (simp add: p_def)
    ultimately show ?thesis
      using True by (simp add: d_def)
  qed
qed

lemma scanDigits_19:
  assumes "length cs \<le> 19"
  shows "scanDigits 0 cs \<noteq> RangeError"
proof -
  have "(10::int) ^ length cs \<le> 10 ^ 19"
    using assms by (intro power_increasing) auto
  also have "\<dots> \<le> maxUint64 + 1"
    by (simp add: maxUint64_def)
  finally show ?thesis
    using scanDigits_short [of 0 cs] by simp
qed

lemma Atoi_malformed:
  assumes "\<not> wellFormedNumber t" "scanDigits 0 (unsignedPart t) \<noteq> RangeError"
  shows "Atoi t = (0, False)"
proof (cases "unsignedPart t = []")
  case True
  then show ?thesis by (simp add: Atoi_def)
next
  case False
  with assms(1) have "\<not> list_all isDigit (unsignedPart t)"
    by (simp add: wellFormedNumber_def)
  with assms(2) have "scanDigits 0 (unsignedPart t) = SyntaxError"
    using scanDigits_syntax by blast
  with False show ?thesis by (simp add: Atoi_def)
qed

lemma Atoi_overflow:
  assumes "scanDigits 0 (unsignedPart t) = RangeError"
  shows "Atoi t = (if negative t then minInt else maxInt, False)"
proof -
  have "unsignedPart t \<noteq> []"
    using assms by auto
  with assms show ?thesis by (simp add: Atoi_def)
qed

lemma unsignedPart_length: "length (unsignedPart t) \<le> length t"
  by (simp add: unsignedPart_def split: list.splits)

lemma Split_no_sep: "sep \<notin> set a \<Longrightarrow> Split a sep = [a]"
  by (induction a) auto

lemma Split_at_sep: "sep \<notin> set a \<Longrightarrow> Split (a @ sep # r) sep = a # Split r sep"
  by (induction a) auto

lemma digits_step_mono:
  "0 \<le> n \<Longrightarrow> list_all isDigit ds \<Longrightarrow>
     n \<le> foldl (\<lambda>n c. n * 10 + (int (of_char c) - 48)) n ds"
proof (induction ds arbitrary: n)
  case Nil
  then show ?case by simp
next
  case (Cons c ds)
  define n' where "n' = n * 10 + (int (of_char c) - 48)"
  have "n \<le> n'"
    using Cons.prems by (auto simp: n'_def isDigit_def)
  moreover have "n' \<le> foldl (\<lambda>n c. n * 10 + (int (of_char c) - 48)) n' ds"
    using Cons.prems \<open>n \<le> n'\<close> by (intro Cons.IH) auto
  ultimately show ?case by (simp add: n'_def)
qed

lemma scanDigits_value:
  "0 \<le> n \<Longrightarrow> n \<le> 18446744073709551615 \<Longrightarrow>
     scanDigits n cs =
       (if 18446744073709551615 < foldl (\<lambda>n c. n * 10 + (int (of_char c) - 48)) n (takeWhile isDigit cs)
        then RangeError
        else if list_all isDigit cs
          then Value (foldl (\<lambda>n c. n * 10 + (int (of_char c) - 48)) n cs)
          else SyntaxError)"
proof (induction cs arbitrary: n)
  case Nil
  then show ?case by simp
next
  case (Cons c cs)
  show ?case
  proof (cases "isDigit c")
    case False
    with Cons.prems show ?thesis by simp
  next
    case True
    define n' where "n' = n * 10 + (int (of_char c) - 48)"
    have pos: "0 \<le> n'"
      using Cons.prems True by (auto simp: n'_def isDigit_def)
    show ?thesis
    proof (cases "18446744073709551615 < n'")
      case over: True
      have "list_all isDigit (takeWhile isDigit cs)"
        by (auto simp: list_all_iff dest: set_takeWhileD)
      then have "n' \<le> foldl (\<lambda>n c. n * 10 + (int (of_char c) - 48)) n' (takeWhile isDigit cs)"
        using pos by (intro digits_step_mono)
      with over True show ?thesis
        by (simp add: n'_def [symmetric] maxUint64_def)
    next
      case False
      then have "n' \<le> 18446744073709551615" by simp
      from Cons.IH [OF pos this] True False show ?thesis
        by (simp add: n'_def [symmetric] maxUint64_def)
    qed
  qed
qed

lemma scanDigits_leadingValue:
  "scanDigits 0 (unsignedPart t) = RangeError \<longleftrightarrow> 18446744073709551615 < leadingValue t"
  using scanDigits_value [of 0 "unsignedPart t"]
  by (simp add: leadingValue_def digitsVal_def)

lemma Atoi_leading_overflow:
  assumes "18446744073709551615 < leadingValue t"
  shows "fst (Atoi t) = (if negative t then - 9223372036854775808 else 9223372036854775807)"
  using assms Atoi_overflow [of t] by (simp add: scanDigits_leadingValue maxInt_def minInt_def)

lemma Atoi_leading_malformed:
  assumes "\<not> wellFormedNumber t" "leadingValue t \<le> 18446744073709551615"
  shows "fst (Atoi t) = 0"
  using assms Atoi_malformed [of t] by (simp add: scanDigits_leadingValue)

lemma leadingValue_short:
  assumes "length t \<le> 19"
  shows "leadingValue t \<le> 18446744073709551615"
proof -
  have "scanDigits 0 (unsignedPart t) \<noteq> RangeError"
    using unsignedPart_length [of t] assms by (intro scanDigits_19) simp
  then show ?thesis by (simp add: scanDigits_leadingValue)
qed

text \<open>
  C6, as amended. For a range token \<^verbatim>\<open>start[,count]\<close>: without a comma the count is 1.
  A token that is not a well-formed number (an optional sign and at least one decimal
  digit) parses as 0, as the start and as the count, unless its leading digits spell a
  number above 18446744073709551615, the largest unsigned 64-bit integer; no token of at
  most 19 bytes does. A token whose leading digits do parses as 9223372036854775807, the
  largest \<^verbatim>\<open>int\<close>, or as -9223372036854775808 after a minus sign, as the start and as
  the count, whatever follows the digits. \<^verbatim>\<open>parseRange\<close> has no failure: it returns a
  pair for every string.
\<close>

theorem parseRange_permissive:
  "(CHR '','' \<notin> set a \<longrightarrow> snd (parseRange a) = 1) \<and>
   (CHR '','' \<notin> set a \<and> CHR '','' \<notin> set t \<and> \<not> wellFormedNumber t \<and>
    leadingValue t \<le> 18446744073709551615 \<longrightarrow>
      fst (parseRange t) = 0 \<and> fst (parseRange (t @ CHR '','' # r)) = 0 \<and>
      snd (parseRange (a @ CHR '','' # t)) = 0 \<and>
      snd (parseRange (a @ CHR '','' # t @ CHR '','' # r)) = 0) \<and>
   (CHR '','' \<notin> set a \<and> CHR '','' \<notin> set t \<and> 18446744073709551615 < leadingValue t \<longrightarrow>
      fst (parseRange t) = (if negative t then - 9223372036854775808 else 9223372036854775807) \<and>
      fst (parseRange (t @ CHR '','' # r)) =
        (if negative t then - 9223372036854775808 else 9223372036854775807) \<and>
      snd (parseRange (a @ CHR '','' # t)) =
        (if negative t then - 9223372036854775808 else 9223372036854775807) \<and>
      snd (parseRange (a @ CHR '','' # t @ CHR '','' # r)) =
        (if negative t then - 9223372036854775808 else 9223372036854775807)) \<and>
   (length t \<le> 19 \<longrightarrow> leadingValue t \<le> 18446744073709551615)"
proof (intro conjI impI)
  assume "CHR '','' \<notin> set a"
  then show "snd (parseRange a) = 1"
    by (simp add: parseRange_def Split_no_sep)
next
  assume h: "CHR '','' \<notin> set a \<and> CHR '','' \<notin> set t \<and> \<not> wellFormedNumber t \<and>
    leadingValue t \<le> 18446744073709551615"
  then have z: "fst (Atoi t) = 0"
    by (simp add: Atoi_leading_malformed)
  from h z show "fst (parseRange t) = 0" "fst (parseRange (t @ CHR '','' # r)) = 0"
    "snd (parseRange (a @ CHR '','' # t)) = 0"
    "snd (parseRange (a @ CHR '','' # t @ CHR '','' # r)) = 0"
    by (simp_all add: parseRange_def Split_no_sep Split_at_sep)
next
  assume h: "CHR '','' \<notin> set a \<and> CHR '','' \<notin> set t \<and> 18446744073709551615 < leadingValue t"
  then have z: "fst (Atoi t) = (if negative t then - 9223372036854775808 else 9223372036854775807)"
    by (simp add: Atoi_leading_overflow)
  from h show "fst (parseRange t) = (if negative t then - 9223372036854775808 else 9223372036854775807)"
    "fst (parseRange (t @ CHR '','' # r)) =
        (if negative t then - 9223372036854775808 else 9223372036854775807)"
    "snd (parseRange (a @ CHR '','' # t)) =
        (if negative t then - 9223372036854775808 else 9223372036854775807)"
    "snd (parseRange (a @ CHR '','' # t @ CHR '','' # r)) =
        (if negative t then - 9223372036854775808 else 9223372036854775807)"
    unfolding z [symmetric] by (simp_all add: parseRange_def Split_no_sep Split_at_sep)
next
  assume "length t \<le> 19"
  then show "leadingValue t \<le> 18446744073709551615"
    by (rule leadingValue_short)
qed

theorem parseRange_permissive_witness:
  "parseRange ''10'' = (10, 1) \<and> parseRange ''x'' = (0, 1) \<and> parseRange ''x,5'' = (0, 5) \<and>
   parseRange ''3,x'' = (3, 0) \<and> parseRange ''3,x,7'' = (3, 0) \<and>
   parseRange ''-99999999999999999999x'' = (- 9223372036854775808, 1) \<and>
   fst (parseRange ''-99999999999999999999x,5'') = - 9223372036854775808 \<and>
   parseRange ''3,-99999999999999999999x'' = (3, - 9223372036854775808) \<and>
   parseRange ''3,-99999999999999999999x,5'' = (3, - 9223372036854775808) \<and>
   leadingValue ''x'' \<le> 18446744073709551615"
proof -
  have pre: "\<not> wellFormedNumber ''x''" "leadingValue ''x'' \<le> 18446744073709551615"
    "18446744073709551615 < leadingValue ''-99999999999999999999x''"
    "negative ''-99999999999999999999x''"
    by code_simp+
  have vals: "parseRange ''10'' = (10, 1)" "fst (parseRange ''x'') = 0 \<longrightarrow> parseRange ''x'' = (0, 1)"
    "fst (parseRange ''x,5'') = 0 \<longrightarrow> parseRange ''x,5'' = (0, 5)"
    "snd (parseRange ''3,x'') = 0 \<longrightarrow> parseRange ''3,x'' = (3, 0)"
    "snd (parseRange ''3,x,7'') = 0 \<longrightarrow> parseRange ''3,x,7'' = (3, 0)"
    "parseRange ''-99999999999999999999x'' = (- 9223372036854775808, 1)"
    "parseRange ''3,-99999999999999999999x'' = (3, - 9223372036854775808)"
    "parseRange ''3,-99999999999999999999x,5'' = (3, - 9223372036854775808)"
    by code_simp+
  show ?thesis
    using parseRange_permissive [of "''3''" "''x''" "''5''"]
      parseRange_permissive [of "''3''" "''x''" "''7''"]
      parseRange_permissive [of "''3''" "''-99999999999999999999x''" "''5''"] pre vals
    by simp
qed

text \<open>
  C6 as stated fails for a malformed token with twenty digits or more before its first
  bad byte: \<^verbatim>\<open>strconv.Atoi\<close> reports the range error of the digits before it reaches the
  byte, and \<^verbatim>\<open>parseRange\<close> keeps the bound it returns.
\<close>

theorem parseRange_permissive_counterexample:
  "\<not> wellFormedNumber ''99999999999999999999x'' \<and>
   parseRange ''99999999999999999999x'' = (9223372036854775807, 1) \<and>
   parseRange ''1,99999999999999999999x'' = (1, 9223372036854775807)"
  by code_simp

section \<open>parseDiff and the paths of the two file headers\<close>

lemma parseLines_append:
  "parseLines st (pre @ rest) =
     (case parseLines st pre of Inl e \<Rightarrow> Inl e | Inr st' \<Rightarrow> parseLines st' rest)"
  by (induction pre arbitrary: st) (auto split: sum.splits)

text \<open>
  C5. When the lines before a \<^verbatim>\<open>+++ b/<path>\<close> line leave a change open and the path of
  that line differs from the path of the open change, \<^verbatim>\<open>parseDiff\<close> fails with the
  mismatch error and returns no change, whatever follows the line.
\<close>

theorem parseDiff_path_mismatch:
  assumes "Split diffOutput (CHR 0x0A) = pre @ raw # post"
    and "parseLines initialState pre = Inr st"
    and "currentChange st = Some c"
    and "HasPrefix (TrimSpace raw) ''+++ b/''"
    and "TrimPrefix (TrimSpace raw) ''+++ b/'' \<noteq> FilePath c"
  shows "parseDiff diffOutput = Inl (mismatch (FilePath c) (TrimPrefix (TrimSpace raw) ''+++ b/''))"
proof -
  have ne: "TrimSpace raw \<noteq> []" and no: "\<not> HasPrefix (TrimSpace raw) ''--- a/''"
    using assms(4) by (auto simp: HasPrefix_def)
  have "parseLine st raw = Inl (mismatch (FilePath c) (TrimPrefix (TrimSpace raw) ''+++ b/''))"
    using ne no assms(3,4,5) by (auto simp: parseLine_def Let_def)
  then show ?thesis
    using assms(1,2) by (simp add: parseDiff_def parseLines_append)
qed

theorem parseDiff_path_mismatch_witness:
  "parseDiff (''--- a/x.txt'' @ nl @ ''+++ b/y.txt'' @ nl @ ''@@ -1 +1 @@'' @ nl @ ''+z'') =
     Inl ''mismatched file paths in diff: x.txt vs y.txt''"
proof -
  have 1: "Split (''--- a/x.txt'' @ nl @ ''+++ b/y.txt'' @ nl @ ''@@ -1 +1 @@'' @ nl @ ''+z'') (CHR 0x0A) =
      [''--- a/x.txt''] @ ''+++ b/y.txt'' # [''@@ -1 +1 @@'', ''+z'']"
    by code_simp
  have 2: "parseLines initialState [''--- a/x.txt''] =
      Inr \<lparr>changes = [], currentChange = Some \<lparr>FilePath = ''x.txt'', Hunks = []\<rparr>, currentHunk = None\<rparr>"
    by code_simp
  have 3: "currentChange \<lparr>changes = [], currentChange = Some \<lparr>FilePath = ''x.txt'', Hunks = []\<rparr>,
      currentHunk = None\<rparr> = Some \<lparr>FilePath = ''x.txt'', Hunks = []\<rparr>"
    by simp
  have 4: "HasPrefix (TrimSpace ''+++ b/y.txt'') ''+++ b/''"
    by code_simp
  have 5: "TrimPrefix (TrimSpace ''+++ b/y.txt'') ''+++ b/'' \<noteq> FilePath \<lparr>FilePath = ''x.txt'', Hunks = []\<rparr>"
    by code_simp
  have 6: "mismatch (FilePath \<lparr>FilePath = ''x.txt'', Hunks = []\<rparr>) (TrimPrefix (TrimSpace ''+++ b/y.txt'') ''+++ b/'') =
      ''mismatched file paths in diff: x.txt vs y.txt''"
    by code_simp
  show ?thesis
    using parseDiff_path_mismatch [OF 1 2 3 4 5] unfolding 6 .
qed

section \<open>applyDiff stops at the first failure\<close>

lemma applyFileChange_failure_state:
  "applyFileChange m c r fs = (Inl f, fs') \<Longrightarrow> fs' = fs"
  by (auto simp: applyFileChange_def Let_def split: sum.splits option.splits)

lemma applyChanges_stops:
  assumes "applyChanges m pre r fs = (Inr (), fs1)"
    and "applyFileChange m c r fs1 = (Inl (Error e), fs2)"
  shows "applyChanges m (pre @ c # post) r fs =
     (Inl (Error (''failed to apply change to '' @ FilePath c @ '': '' @ e)), fs2)"
  using assms
proof (induction pre arbitrary: fs)
  case Nil
  then show ?case by simp
next
  case (Cons a pre)
  then show ?case
    by (auto split: prod.splits sum.splits failure.splits)
qed

text \<open>
  C9. If \<^verbatim>\<open>parseDiff\<close> fails, \<^verbatim>\<open>applyDiff\<close> returns the error, wrapped, and the file
  system is as it was. If the changes before one change succeed and that change returns
  an error, \<^verbatim>\<open>applyDiff\<close> returns that error wrapped with the path of the change; the
  result does not depend on the changes after it, which are not attempted, and the file
  system is the one the earlier changes left, with their writes in place.
\<close>

theorem applyDiff_fail_fast:
  "(parseDiff d = Inl e \<longrightarrow>
      applyDiff m d r fs = (Inl (Error (''failed to parse diff: '' @ e)), fs)) \<and>
   (parseDiff d = Inr (pre @ c # post) \<and> applyChanges m pre r fs = (Inr (), fs1) \<and>
    applyFileChange m c r fs1 = (Inl (Error e'), fs2) \<longrightarrow>
      applyDiff m d r fs =
        (Inl (Error (''failed to apply change to '' @ FilePath c @ '': '' @ e')), fs1) \<and>
      fs2 = fs1)"
proof (intro conjI impI)
  assume "parseDiff d = Inl e"
  then show "applyDiff m d r fs = (Inl (Error (''failed to parse diff: '' @ e)), fs)"
    by (simp add: applyDiff_def)
next
  assume a: "parseDiff d = Inr (pre @ c # post) \<and> applyChanges m pre r fs = (Inr (), fs1) \<and>
    applyFileChange m c r fs1 = (Inl (Error e'), fs2)"
  then show "fs2 = fs1"
    using applyFileChange_failure_state by blast
  with a show "applyDiff m d r fs =
        (Inl (Error (''failed to apply change to '' @ FilePath c @ '': '' @ e')), fs1)"
    using applyChanges_stops [of m pre r fs fs1 c e' fs2 post] by (simp add: applyDiff_def)
qed

lemma parse_three: "parseDiff threeDiff =
    Inr ([changeOf ''a.txt'' ''a'' ''A''] @ changeOf ''b.txt'' ''b'' ''B'' # [changeOf ''c.txt'' ''c'' ''C''])"
  by code_simp

lemma parse_bad: "parseDiff badDiff = Inl ''mismatched file paths in diff: x.txt vs y.txt''"
  by code_simp

theorem applyDiff_fail_fast_witness:
  "applyDiff sampleMachine badDiff ''repo'' threeFs =
     (Inl (Error ''failed to parse diff: mismatched file paths in diff: x.txt vs y.txt''), threeFs) \<and>
   fst (applyDiff sampleMachine threeDiff ''repo'' threeFs) =
     Inl (Error ''failed to apply change to b.txt: failed to read file: no such file or directory'') \<and>
   files (snd (applyDiff sampleMachine threeDiff ''repo'' threeFs)) ''repo/a.txt'' = Inr (''A'' @ nl) \<and>
   files (snd (applyDiff sampleMachine threeDiff ''repo'' threeFs)) ''repo/c.txt'' = Inr ''c''"
proof -
  define fs1 where "fs1 = threeFs\<lparr>files := (files threeFs)(''repo/a.txt'' := Inr (''A'' @ nl))\<rparr>"
  have 1: "applyChanges sampleMachine [changeOf ''a.txt'' ''a'' ''A''] ''repo'' threeFs = (Inr (), fs1)"
    by (simp add: fs1_def applyFileChange_def changeOf_def sampleMachine_def plainJoin_def threeFs_def
        applyHunk_def removeOld_def insertNew_def sliceTo_def sliceFrom_def appendSlice_def
        fresh_def hunkOf_def newLinesOf_def added_def removed_def wrap64_def newContentOf_def
        HasSuffix_def nl_def Let_def)
  have 2: "applyFileChange sampleMachine (changeOf ''b.txt'' ''b'' ''B'') ''repo'' fs1 =
      (Inl (Error ''failed to read file: no such file or directory''), fs1)"
    by (simp add: fs1_def applyFileChange_def changeOf_def sampleMachine_def plainJoin_def threeFs_def)
  have 3: "FilePath (changeOf ''b.txt'' ''b'' ''B'') = ''b.txt''"
    by (simp add: changeOf_def)
  have a: "applyDiff sampleMachine badDiff ''repo'' threeFs =
     (Inl (Error ''failed to parse diff: mismatched file paths in diff: x.txt vs y.txt''), threeFs)"
    using applyDiff_fail_fast [of badDiff "''mismatched file paths in diff: x.txt vs y.txt''"
        sampleMachine "''repo''" threeFs] parse_bad
    by simp
  have b: "applyDiff sampleMachine threeDiff ''repo'' threeFs =
     (Inl (Error ''failed to apply change to b.txt: failed to read file: no such file or directory''), fs1)"
    using applyDiff_fail_fast [of threeDiff _ sampleMachine "''repo''" threeFs
        "[changeOf ''a.txt'' ''a'' ''A'']" "changeOf ''b.txt'' ''b'' ''B''" "[changeOf ''c.txt'' ''c'' ''C'']"
        fs1 "''failed to read file: no such file or directory''" fs1] parse_three 1 2 3
    by simp
  show ?thesis
    unfolding b unfolding a by (simp add: fs1_def threeFs_def)
qed

section \<open>ExecuteTools on two responses\<close>

text \<open>
  C7. The payload of a create-file directive should be the lines that follow the
  directive line, up to the sentinel. The loop starts at index \<^verbatim>\<open>toolCount\<close> instead:
  after one line of prose the payload begins with the directive line itself. The lines
  of the payload are scanned again as directives.
\<close>

theorem createFile_payload_from_toolCount:
  "callsOf (''Intro'' @ nl @ ''CREATE_FILE: a.txt'' @ nl @ ''hello'' @ nl @ ''END_FILE'') =
     [CreateFile ''a.txt'' (''CREATE_FILE: a.txt'' @ nl @ ''hello'')] \<and>
   callsOf (''CREATE_FILE: a.txt'' @ nl @ ''RUN_COMMAND: ls'' @ nl @ ''END_FILE'') =
     [CreateFile ''a.txt'' ''RUN_COMMAND: ls'', ExecuteCommand ''ls'']"
  by code_simp

text \<open>
  C8. A search-files line should give its first token as the pattern and its second as
  the directory, and no call with fewer than two tokens. The remainder is cut at its
  first space before it is trimmed: with the space that follows the colon the pattern
  is empty and the directory is the rest of the line, and one token is enough for a
  call.
\<close>

theorem searchFiles_splits_at_first_space:
  "callsOf ''SEARCH_FILES: foo src'' = [SearchFiles [] ''foo src''] \<and>
   callsOf ''SEARCH_FILES: foo'' = [SearchFiles [] ''foo''] \<and>
   callsOf ''SEARCH_FILES:foo'' = []"
  by code_simp

end
